theory Spec2Isabelle
  imports Complex_Main
begin

section \<open>Energy-based voice activity detection: the model of vad.py\<close>

text \<open>
  Floating-point values of the source are modelled as reals, Python integers as
  \<open>int\<close>, and every raise or failed assertion as a value \<open>Inl err\<close> of a sum type.
\<close>

datatype py_error =
    AssertionError
  | ValueError
  | IndexError
  | TypeError
  | ZeroDivisionError
  | Exception string

subsection \<open>numpy and librosa primitives used by the source\<close>

text \<open>\<open>np.where(mask)[0]\<close>: the indices at which the mask holds, ascending.\<close>

definition np_where :: "bool list \<Rightarrow> int list" where
  "np_where bs = filter (\<lambda>i. bs ! nat i) [0..int (length bs) - 1]"

text \<open>\<open>np.max\<close> of a one-dimensional array; numpy raises ValueError on an empty one.\<close>

definition np_max :: "real list \<Rightarrow> py_error + real" where
  "np_max xs = (case xs of [] \<Rightarrow> Inl ValueError | y # ys \<Rightarrow> Inr (fold max ys y))"

text \<open>\<open>np.clip(v, lo, hi)\<close>, which numpy computes as \<open>minimum(hi, maximum(v, lo))\<close>.\<close>

definition np_clip :: "real \<Rightarrow> real \<Rightarrow> real \<Rightarrow> real" where
  "np_clip v lo hi = min hi (max v lo)"

text \<open>
  The \<open>ref\<close> argument of \<open>librosa.power_to_db\<close> is a number or a callable that is
  applied to the whole array (\<open>np.max\<close> by default in \<open>SigVad\<close>).
\<close>

datatype ref_arg = RefNumber real | RefCallable "real list \<Rightarrow> py_error + real"

text \<open>
  \<open>librosa.power_to_db(S, ref, amin=1e-10, top_db=None)\<close>, an external library
  function, as librosa computes it:
  \<open>10 * log10(maximum(amin, S)) - 10 * log10(maximum(amin, ref_value))\<close>
  where \<open>ref_value\<close> is \<open>ref(S)\<close> for a callable and \<open>abs(ref)\<close> for a number. With
  \<open>top_db=None\<close> there is no clipping of the result. For a reference of at least
  \<open>amin\<close> this is \<open>10 * log10(max(value, amin) / reference)\<close>
  (\<open>power_to_db_quotient\<close> below).
\<close>

definition amin :: real where
  "amin = 1 / 10 ^ 10"

definition power_to_db :: "real list \<Rightarrow> ref_arg \<Rightarrow> py_error + real list" where
  "power_to_db S r =
     (case (case r of RefCallable f \<Rightarrow> f S | RefNumber v \<Rightarrow> Inr \<bar>v\<bar>) of
        Inl err \<Rightarrow> Inl err
      | Inr ref_value \<Rightarrow>
          Inr (map (\<lambda>s. 10 * log 10 (max amin s) - 10 * log 10 (max amin ref_value)) S))"

text \<open>
  \<open>librosa.frames_to_samples(frames, hop_length)\<close>, an external library function:
  \<open>frames * hop_length\<close> (no \<open>n_fft\<close> offset is passed by the source).
\<close>

definition frames_to_samples :: "int \<Rightarrow> int \<Rightarrow> int" where
  "frames_to_samples frames hop = frames * hop"

subsection \<open>The sentinel scan shared by both classes\<close>

text \<open>
  Lines 71-78 and 145-152 of vad.py are the same loop, up to the conversion applied to
  the frame index before it is stored (\<open>int(x)\<close> in \<open>MelVad\<close>,
  \<open>int(librosa.frames_to_samples(x, hop_length))\<close> in \<open>SigVad\<close>). The loop state is
  \<open>(start, end, acc)\<close>; \<open>start\<close> and \<open>end\<close> begin as \<open>None\<close>.
\<close>

type_synonym scan_state = "int option \<times> int option \<times> (int option \<times> int) list"

definition scan_step :: "int list \<Rightarrow> (int \<Rightarrow> int) \<Rightarrow> scan_state \<Rightarrow> int \<Rightarrow> scan_state" where
  "scan_step sil_index conv st x =
     (case st of (start, end, acc) \<Rightarrow>
        let start1 = (if x \<notin> set sil_index \<and> (x + 1) \<in> set sil_index
                      then Some (conv (x + 1)) else start)
        in if x \<in> set sil_index \<and> x + 1 \<notin> set sil_index
           then (start1, Some (conv x), acc @ [(start1, conv x)])
           else (start1, end, acc))"

text \<open>\<open>for x in range(-1, n)\<close>, returning the list that was appended to.\<close>

definition scan :: "int list \<Rightarrow> (int \<Rightarrow> int) \<Rightarrow> nat \<Rightarrow> (int option \<times> int) list" where
  "scan sil_index conv n =
     snd (snd (foldl (scan_step sil_index conv) (None, None, []) [-1..int n - 1]))"

text \<open>
  \<open>[(_s, _e) for _s, _e in xs if _e - _s > 1]\<close>. Subtracting \<open>None\<close> from an integer
  raises TypeError in Python.
\<close>

fun drop_short :: "(int option \<times> int) list \<Rightarrow> py_error + (int \<times> int) list" where
  "drop_short [] = Inr []"
| "drop_short ((None, e) # rest) = Inl TypeError"
| "drop_short ((Some s, e) # rest) =
     (case drop_short rest of
        Inl err \<Rightarrow> Inl err
      | Inr kept \<Rightarrow> Inr (if e - s > 1 then (s, e) # kept else kept))"

subsection \<open>MelVad\<close>

record mel_vad =
  mel_global_ref_db :: "real option"
  mel_top_db :: real

text \<open>
  A two-dimensional array of shape \<open>(seq_dims, feat_dims)\<close>, as the docstring of
  \<open>get_nosil_endpoints\<close> asks for: \<open>np.shape(mels)[-1]\<close> is \<open>feat_dims\<close>, also when
  there is no row. A single frame is an array of shape \<open>(1, feat_dims)\<close>; on a
  one-dimensional vector \<open>np.sum(..., axis=1)\<close> has no axis to sum over.
\<close>

record mel_array =
  feat_dims :: nat
  frames :: "real list list"

text \<open>Python truthiness of \<open>self._global_ref_db\<close>: \<open>None\<close> and \<open>0\<close> are false.\<close>

definition truthy :: "real option \<Rightarrow> bool" where
  "truthy v = (case v of None \<Rightarrow> False | Some r \<Rightarrow> r \<noteq> 0)"

definition get_mel_power :: "mel_array \<Rightarrow> py_error + real list" where
  "get_mel_power mels =
     (if feat_dims mels \<noteq> 80 then Inl AssertionError
      else
        let ref_level_db = 20;
            min_level_db = - 100;
            mels1 = map (map (\<lambda>v. np_clip v 0 1 * (- min_level_db) + min_level_db)) (frames mels);
            mel_amp = map (map (\<lambda>v. 10 powr ((v + ref_level_db) * 0.05))) mels1
        in Inr (map sum_list mel_amp))"

text \<open>Lines 32-40 and 59-68: the assertions and the decibel profile, shared verbatim.\<close>

definition mel_db_of :: "mel_vad \<Rightarrow> mel_array \<Rightarrow> bool \<Rightarrow> py_error + real list" where
  "mel_db_of self mels using_global_ref =
     (if \<not> (truthy (mel_global_ref_db self) \<or> \<not> using_global_ref) then Inl AssertionError
      else if feat_dims mels \<noteq> 80 then Inl AssertionError
      else case get_mel_power mels of
        Inl err \<Rightarrow> Inl err
      | Inr mel_amp \<Rightarrow>
          (case (if using_global_ref
                 then (case mel_global_ref_db self of
                         None \<Rightarrow> Inl TypeError | Some g \<Rightarrow> Inr g)
                 else np_max mel_amp) of
             Inl err \<Rightarrow> Inl err
           | Inr r \<Rightarrow> power_to_db mel_amp (RefNumber r)))"

definition get_vad_label :: "mel_vad \<Rightarrow> mel_array \<Rightarrow> bool \<Rightarrow> py_error + bool" where
  "get_vad_label self mels using_global_ref =
     (case mel_db_of self mels using_global_ref of
        Inl err \<Rightarrow> Inl err
      | Inr mel_db \<Rightarrow>
          (case mel_db of
             [] \<Rightarrow> Inl IndexError
           | d # _ \<Rightarrow> Inr (d > - mel_top_db self)))"

definition get_nosil_endpoints :: "mel_vad \<Rightarrow> mel_array \<Rightarrow> bool \<Rightarrow> py_error + (int \<times> int) list" where
  "get_nosil_endpoints self mels using_global_ref =
     (case mel_db_of self mels using_global_ref of
        Inl err \<Rightarrow> Inl err
      | Inr mel_db \<Rightarrow>
          let sil_index = np_where (map (\<lambda>d. d > - mel_top_db self) mel_db);
              nosil_duration = scan sil_index (\<lambda>x. x) (length mel_db)
          in drop_short nosil_duration)"

subsection \<open>SigVad\<close>

record sig_vad =
  sig_top_db :: real
  sig_frame_length :: int
  sig_hop_length :: int
  sig_ref :: ref_arg

text \<open>
  The external collaborators of \<open>SigVad\<close>: \<open>librosa.feature.rms(y, frame_length,
  hop_length)\<close>, as the list of its values, one per analysis frame, and
  \<open>librosa.load(path, sr=16000)\<close>. Both are outside the source and are taken as
  parameters; both may raise.
\<close>

record librosa =
  rms :: "real list \<Rightarrow> int \<Rightarrow> int \<Rightarrow> py_error + real list"
  load :: "string \<Rightarrow> py_error + real list"

text \<open>Lines 135-137: the short-time energy and its decibel profile.\<close>

definition signal_db_of :: "librosa \<Rightarrow> sig_vad \<Rightarrow> real list \<Rightarrow> py_error + real list" where
  "signal_db_of lib self y =
     (case rms lib y (sig_frame_length self) (sig_hop_length self) of
        Inl err \<Rightarrow> Inl err
      | Inr r \<Rightarrow> power_to_db (map (\<lambda>v. v ^ 2) r) (sig_ref self))"

text \<open>Lines 138-143: the mask handed to \<open>np.where\<close>, by the requested kind.\<close>

definition sil_mask_of :: "sig_vad \<Rightarrow> string \<Rightarrow> real list \<Rightarrow> py_error + bool list" where
  "sil_mask_of self sil_type signal_db =
     (if sil_type = ''sil'' then Inr (map (\<lambda>d. d < - sig_top_db self) signal_db)
      else if sil_type = ''nosil'' then Inr (map (\<lambda>d. d > - sig_top_db self) signal_db)
      else Inl (Exception ''Error for sil type''))"

text \<open>
  \<open>mse.squeeze()\<close> turns the \<open>(1, t)\<close> array of \<open>t\<close> frames into a one-dimensional
  array, except for \<open>t = 1\<close>: then it is a zero-dimensional array, and \<open>len\<close> of it
  in the loop header raises TypeError.
\<close>

definition get_sil_endpoints :: "librosa \<Rightarrow> sig_vad \<Rightarrow> real list \<Rightarrow> string \<Rightarrow> py_error + (int \<times> int) list" where
  "get_sil_endpoints lib self y sil_type =
     (case signal_db_of lib self y of
        Inl err \<Rightarrow> Inl err
      | Inr signal_db \<Rightarrow>
          (case sil_mask_of self sil_type signal_db of
             Inl err \<Rightarrow> Inl err
           | Inr m \<Rightarrow>
               if length signal_db = 1 then Inl TypeError
               else
                 let sil_index = np_where m;
                     sil_endpoints = scan sil_index (\<lambda>x. frames_to_samples x (sig_hop_length self))
                                       (length signal_db)
                 in drop_short sil_endpoints))"

text \<open>
  \<open>_sil_to_nosil\<close>: \<open>sil_data[0]\<close> raises IndexError on an empty list; the loop runs
  over \<open>range(len(sil_data) - 1)\<close> and reads by index.
\<close>

definition sil_to_nosil :: "(real \<times> real) list \<Rightarrow> real \<Rightarrow> py_error + (real \<times> real) list" where
  "sil_to_nosil sil_data dur =
     (if sil_data = [] then Inl IndexError
      else
        let nosil0 = (if fst (sil_data ! 0) > 0.001 then [(0, fst (sil_data ! 0))] else []);
            nosil1 = foldl (\<lambda>acc idx. acc @ [(snd (sil_data ! idx), fst (sil_data ! (idx + 1)))])
                       nosil0 [0..<length sil_data - 1];
            nosil2 = (if dur - snd (last sil_data) > 0.001
                      then nosil1 @ [(snd (last sil_data), dur)] else nosil1)
        in Inr nosil2)"

text \<open>
  Lines 171-174: with a truthy \<open>wav_path\<close> the signal comes from the decoder at
  16000 Hz, otherwise the arguments are used as given (both default to \<open>None\<close>).
\<close>

definition resolve_input :: "librosa \<Rightarrow> string option \<Rightarrow> real list option \<Rightarrow> int option
    \<Rightarrow> py_error + (real list option \<times> int option)" where
  "resolve_input lib wav_path signal sr =
     (case wav_path of
        None \<Rightarrow> Inr (signal, sr)
      | Some p \<Rightarrow>
          if p = [] then Inr (signal, sr)
          else (case load lib p of
                  Inl err \<Rightarrow> Inl err
                | Inr y \<Rightarrow> Inr (Some y, Some 16000)))"

text \<open>Lines 178-179: the silence intervals in seconds that pass the duration test.\<close>

definition long_silences :: "int \<Rightarrow> real \<Rightarrow> (int \<times> int) list \<Rightarrow> (real \<times> real) list" where
  "long_silences sr min_sil_dur sil_data =
     map (\<lambda>(s, e). (real_of_int s / real_of_int sr, real_of_int e / real_of_int sr))
       (filter (\<lambda>(s, e). real_of_int (e - s) > real_of_int sr * min_sil_dur) sil_data)"

definition get_speech_endpoint :: "librosa \<Rightarrow> sig_vad \<Rightarrow> string option \<Rightarrow> real list option
    \<Rightarrow> int option \<Rightarrow> real \<Rightarrow> real \<Rightarrow> py_error + (real \<times> real) list" where
  "get_speech_endpoint lib self wav_path signal sr min_sil_dur min_nosil_dur =
     (case resolve_input lib wav_path signal sr of
        Inl err \<Rightarrow> Inl err
      | Inr (None, _) \<Rightarrow> Inl TypeError
      | Inr (Some y, None) \<Rightarrow> Inl TypeError
      | Inr (Some y, Some r) \<Rightarrow>
          if r = 0 then Inl ZeroDivisionError
          else
            let dur = real (length y) / real_of_int r in
            (case get_sil_endpoints lib self y ''sil'' of
               Inl err \<Rightarrow> Inl err
             | Inr sil_data0 \<Rightarrow>
                 let sil_data = long_silences r min_sil_dur sil_data0 in
                 if length sil_data = 0 then Inr [(0, dur)]
                 else (case sil_to_nosil sil_data dur of
                         Inl err \<Rightarrow> Inl err
                       | Inr nosil_data \<Rightarrow>
                           Inr (filter (\<lambda>(s, e). e - s > min_nosil_dur) nosil_data))))"

section \<open>Specification-side notions\<close>

text \<open>
  A maximal run of a mask: the frames \<open>s..e\<close> all hold, the frame before \<open>s\<close> (if
  any) and the frame after \<open>e\<close> (if any) do not.
\<close>

definition is_run :: "bool list \<Rightarrow> nat \<Rightarrow> nat \<Rightarrow> bool" where
  "is_run bs s e =
     (s \<le> e \<and> e < length bs \<and> (\<forall>i\<in>{s..e}. bs ! i)
      \<and> (s = 0 \<or> \<not> bs ! (s - 1)) \<and> (Suc e = length bs \<or> \<not> bs ! Suc e))"

text \<open>
  The runs of a mask as a list, by a left-to-right recursion that is independent of the
  sentinel loop: \<open>run_start bs j\<close> walks back from \<open>j\<close> over true frames, and
  \<open>runs_upto bs m\<close> lists the runs that end before \<open>m\<close>.
\<close>

fun run_start :: "bool list \<Rightarrow> nat \<Rightarrow> nat" where
  "run_start bs 0 = 0"
| "run_start bs (Suc j) = (if bs ! j then run_start bs j else Suc j)"

fun runs_upto :: "bool list \<Rightarrow> nat \<Rightarrow> (nat \<times> nat) list" where
  "runs_upto bs 0 = []"
| "runs_upto bs (Suc j) =
     runs_upto bs j @
       (if bs ! j \<and> \<not> (Suc j < length bs \<and> bs ! Suc j) then [(run_start bs j, j)] else [])"

definition runs :: "bool list \<Rightarrow> (nat \<times> nat) list" where
  "runs bs = runs_upto bs (length bs)"

text \<open>What the loop stores for a run, given the index conversion of the caller.\<close>

definition stored :: "(int \<Rightarrow> int) \<Rightarrow> nat \<times> nat \<Rightarrow> int option \<times> int" where
  "stored conv r = (Some (conv (int (fst r))), conv (int (snd r)))"

text \<open>
  An interval list is well ordered when it ascends by start, no interval begins before
  an earlier one has ended, and every interval has a positive extent. The condition on
  all pairs \<open>i < j\<close> contains the one on neighbours \<open>i, i + 1\<close>.
\<close>

definition ordered_intervals :: "('a::linorder \<times> 'a) list \<Rightarrow> bool" where
  "ordered_intervals ivs =
     (sorted_wrt (\<lambda>a b. fst a \<le> fst b \<and> snd a \<le> fst b) ivs
      \<and> list_all (\<lambda>iv. fst iv < snd iv) ivs)"

text \<open>
  The feature-to-power conversion as the specification words it, with the two levels as
  parameters.
\<close>

definition clip_unit :: "real \<Rightarrow> real" where
  "clip_unit x = (if x < 0 then 0 else if 1 < x then 1 else x)"

definition featureToPower :: "real list list \<Rightarrow> real \<Rightarrow> real \<Rightarrow> real list" where
  "featureToPower features refLevelDb minLevelDb =
     map (\<lambda>frame. sum_list (map (\<lambda>x.
            let clipped = clip_unit x * (- minLevelDb) + minLevelDb
            in 10 powr ((clipped + refLevelDb) * 0.05)) frame)) features"

text \<open>
  A concrete feature extractor for the examples: with \<open>frame_length = 1\<close> and
  \<open>hop_length = 1\<close> no padding is added and every sample is its own analysis frame,
  so the root mean square of frame \<open>i\<close> is the magnitude of sample \<open>i\<close>, and an
  empty signal is refused. The decoder of the examples knows no file.
\<close>

definition rms_window1 :: "real list \<Rightarrow> int \<Rightarrow> int \<Rightarrow> py_error + real list" where
  "rms_window1 y fl hop =
     (if y = [] then Inl (Exception ''ParameterError: input is too short'')
      else Inr (map abs y))"

definition lib1 :: librosa where
  "lib1 = \<lparr>rms = rms_window1, load = (\<lambda>p. Inl (Exception ''no such file''))\<rparr>"

definition sig1 :: sig_vad where
  "sig1 = \<lparr>sig_top_db = 25, sig_frame_length = 1, sig_hop_length = 1,
            sig_ref = RefCallable np_max\<rparr>"

text \<open>
  A \<open>MelVad\<close> with the default threshold and no global reference, and a feature
  matrix of five frames of 80 bands: three frames at full scale between two at zero.
\<close>

definition mel1 :: mel_vad where
  "mel1 = \<lparr>mel_global_ref_db = None, mel_top_db = 25\<rparr>"

definition mels1 :: mel_array where
  "mels1 = \<lparr>feat_dims = 80,
     frames = [replicate 80 0, replicate 80 1, replicate 80 1, replicate 80 1, replicate 80 0]\<rparr>"

text \<open>
  The stronger form met by the silence intervals: every interval has a positive extent
  and ends strictly before any later one begins.
\<close>

definition separated :: "('a::linorder \<times> 'a) list \<Rightarrow> bool" where
  "separated ivs =
     (sorted_wrt (\<lambda>a b. snd a < fst b) ivs \<and> list_all (\<lambda>iv. fst iv < snd iv) ivs)"

section \<open>The sentinel scan\<close>

subsection \<open>The loop computes the run list\<close>

lemma in_np_where:
  "x \<in> set (np_where bs) \<longleftrightarrow> 0 \<le> x \<and> x < int (length bs) \<and> bs ! nat x"
  by (auto simp: np_where_def)

lemma scan_inv:
  "m \<le> length bs \<Longrightarrow>
   \<exists>st en. foldl (scan_step (np_where bs) conv) (None, None, []) [-1..int m - 1]
             = (st, en, map (stored conv) (runs_upto bs m))
           \<and> (m < length bs \<and> bs ! m \<longrightarrow> st = Some (conv (int (run_start bs m))))"
proof (induction m)
  case 0
  show ?case by (simp add: scan_step_def in_np_where)
next
  case (Suc m)
  then obtain st en where
    f: "foldl (scan_step (np_where bs) conv) (None, None, []) [-1..int m - 1]
          = (st, en, map (stored conv) (runs_upto bs m))"
    and s: "bs ! m \<Longrightarrow> st = Some (conv (int (run_start bs m)))"
    by auto
  have u: "[-1..int (Suc m) - 1] = [-1..int m - 1] @ [int m]"
    using upto_rec2 [of "-1" "int m"] by simp
  have a: "int m \<in> set (np_where bs) \<longleftrightarrow> bs ! m"
    using Suc.prems by (simp add: in_np_where)
  have b: "int m + 1 \<in> set (np_where bs) \<longleftrightarrow> Suc m < length bs \<and> bs ! Suc m"
    by (auto simp: in_np_where nat_add_distrib)
  have c: "int (Suc m) = int m + 1" by simp
  show ?case
    unfolding u foldl_append f
    using s by (simp add: scan_step_def a b c stored_def Let_def del: of_nat_Suc)
qed

lemma scan_runs:
  "scan (np_where bs) conv (length bs) = map (stored conv) (runs bs)"
  using scan_inv [of "length bs" bs conv] by (auto simp: scan_def runs_def)

lemma run_start_le: "run_start bs j \<le> j"
  by (induction j) auto

lemma run_start_all: "bs ! j \<Longrightarrow> run_start bs j \<le> i \<Longrightarrow> i \<le> j \<Longrightarrow> bs ! i"
proof (induction j)
  case 0
  then show ?case by simp
next
  case (Suc j)
  then show ?case by (cases "i = Suc j") (auto split: if_splits)
qed

lemma run_start_left: "run_start bs j = 0 \<or> \<not> bs ! (run_start bs j - 1)"
  by (induction j) auto

lemma run_start_unique:
  assumes "s \<le> j" "\<forall>i\<in>{s..j}. bs ! i" "s = 0 \<or> \<not> bs ! (s - 1)"
  shows "s = run_start bs j"
proof (rule ccontr)
  assume ne: "s \<noteq> run_start bs j"
  have bj: "bs ! j" using assms by auto
  show False
  proof (cases "s < run_start bs j")
    case True
    then have "run_start bs j - 1 \<in> {s..j}" using run_start_le [of bs j] by auto
    then have "bs ! (run_start bs j - 1)" using assms(2) by blast
    then show False using run_start_left [of bs j] True by auto
  next
    case False
    then have lt: "run_start bs j < s" using ne by simp
    then have "bs ! (s - 1)"
      using run_start_all [OF bj, of "s - 1"] assms(1) by auto
    then show False using assms(3) lt by auto
  qed
qed

lemma set_runs_upto:
  "m \<le> length bs \<Longrightarrow> set (runs_upto bs m) = {(s, e). is_run bs s e \<and> e < m}"
proof (induction m)
  case 0
  show ?case by simp
next
  case (Suc m)
  have m: "m < length bs" using Suc.prems by simp
  have ih: "set (runs_upto bs m) = {(s, e). is_run bs s e \<and> e < m}"
    using Suc by simp
  have split: "{(s, e). is_run bs s e \<and> e < Suc m}
      = {(s, e). is_run bs s e \<and> e < m} \<union> {(s, e). is_run bs s e \<and> e = m}"
    by auto
  have last: "{(s, e). is_run bs s e \<and> e = m}
      = (if bs ! m \<and> \<not> (Suc m < length bs \<and> bs ! Suc m) then {(run_start bs m, m)} else {})"
  proof (cases "bs ! m \<and> \<not> (Suc m < length bs \<and> bs ! Suc m)")
    case True
    have "is_run bs (run_start bs m) m"
      using True m run_start_le [of bs m] run_start_left [of bs m] run_start_all [of bs m]
      by (auto simp: is_run_def)
    moreover have "s = run_start bs m" if "is_run bs s m" for s
      using that by (intro run_start_unique) (auto simp: is_run_def)
    ultimately have "{(s, e). is_run bs s e \<and> e = m} = {(run_start bs m, m)}"
      by blast
    then show ?thesis using True by simp
  next
    case False
    then show ?thesis using m by (auto simp: is_run_def)
  qed
  have "set (runs_upto bs (Suc m)) = set (runs_upto bs m) \<union>
      (if bs ! m \<and> \<not> (Suc m < length bs \<and> bs ! Suc m) then {(run_start bs m, m)} else {})"
    by auto
  then show ?case
    by (simp only: split ih last)
qed

lemma set_runs: "set (runs bs) = {(s, e). is_run bs s e}"
  by (auto simp: runs_def set_runs_upto is_run_def)

lemma runs_upto_bound: "r \<in> set (runs_upto bs m) \<Longrightarrow> fst r \<le> snd r \<and> snd r < m"
  by (induction m) (auto simp: run_start_le less_Suc_eq split: if_splits)

lemma runs_upto_gap:
  "r \<in> set (runs_upto bs m) \<Longrightarrow> m < length bs \<Longrightarrow> bs ! m \<Longrightarrow> Suc (snd r) < run_start bs m"
proof (induction m arbitrary: r)
  case 0
  then show ?case by simp
next
  case (Suc m)
  show ?case
  proof (cases "bs ! m")
    case True
    then show ?thesis using Suc by (auto split: if_splits)
  next
    case False
    then show ?thesis using Suc.prems runs_upto_bound [of r bs m] by (auto split: if_splits)
  qed
qed

lemma sorted_runs_upto:
  "m \<le> length bs \<Longrightarrow> sorted_wrt (\<lambda>a b. Suc (snd a) < fst b) (runs_upto bs m)"
  by (induction m) (auto simp: sorted_wrt_append dest: runs_upto_gap)


lemma sorted_runs: "sorted_wrt (\<lambda>a b. Suc (snd a) < fst b) (runs bs)"
  by (simp add: runs_def sorted_runs_upto)

lemma runs_bound: "r \<in> set (runs bs) \<Longrightarrow> fst r \<le> snd r \<and> snd r < length bs"
  unfolding runs_def by (rule runs_upto_bound)

lemma runs_start_increasing: "sorted_wrt (\<lambda>a b. fst a < fst b) (runs bs)"
proof (rule sorted_wrt_mono_rel [OF _ sorted_runs])
  fix a b
  assume "a \<in> set (runs bs)" "b \<in> set (runs bs)" "Suc (snd a) < fst b"
  then show "fst a < fst b" using runs_bound [of a bs] by simp
qed

text \<open>
  C1. For every boolean mask, the sentinel scan over \<open>x = -1 .. N - 1\<close> of
  \<open>MelVad.get_nosil_endpoints\<close> (indices stored as they are) and of
  \<open>SigVad._get_sil_endpoints\<close> (indices stored times the hop length) appends, before
  any filtering, one pair per maximal run of true frames and nothing else: the pair is
  (first true index, last true index) of the run, both inclusive, and the pairs come in
  strictly increasing order of start. Runs that touch index \<open>0\<close> or index \<open>N - 1\<close>
  are runs like any other (\<open>is_run\<close>). The start stored is never \<open>None\<close>.
\<close>

theorem scan_emits_maximal_runs:
  "scan (np_where bs) (\<lambda>x. x) (length bs) = map (\<lambda>(s, e). (Some (int s), int e)) (runs bs)
   \<and> scan (np_where bs) (\<lambda>x. frames_to_samples x hop) (length bs)
         = map (\<lambda>(s, e). (Some (int s * hop), int e * hop)) (runs bs)
   \<and> set (runs bs) = {(s, e). is_run bs s e}
   \<and> sorted_wrt (\<lambda>a b. fst a < fst b) (runs bs)"
proof -
  have "map (stored (\<lambda>x. x)) (runs bs) = map (\<lambda>(s, e). (Some (int s), int e)) (runs bs)"
    by (rule map_cong) (auto simp: stored_def)
  moreover have "map (stored (\<lambda>x. frames_to_samples x hop)) (runs bs)
      = map (\<lambda>(s, e). (Some (int s * hop), int e * hop)) (runs bs)"
    by (rule map_cong) (auto simp: stored_def frames_to_samples_def)
  ultimately show ?thesis
    by (simp add: scan_runs set_runs runs_start_increasing)
qed

lemma runs_example: "runs [True, True, False, True, False] = [(0, 1), (3, 3)]"
  by (simp add: runs_def numeral_eq_Suc)

theorem scan_emits_maximal_runs_witness:
  "scan (np_where [True, True, False, True, False]) (\<lambda>x. x) 5 = [(Some 0, 1), (Some 3, 3)]
   \<and> scan (np_where [True, True, False, True, False]) (\<lambda>x. frames_to_samples x 256) 5
         = [(Some 0, 256), (Some 768, 768)]
   \<and> is_run [True, True, False, True, False] 0 1
   \<and> is_run [True, True, False, True, False] 3 3
   \<and> \<not> is_run [True, True, False, True, False] 0 0"
proof -
  let ?bs = "[True, True, False, True, False]"
  have len: "length ?bs = 5" by simp
  note t = scan_emits_maximal_runs [of ?bs 256, unfolded len runs_example]
  have s: "set [(0, 1), (3, 3)] = {(s, e). is_run ?bs s e}"
    using t by blast
  have "(0, 1) \<in> {(s, e). is_run ?bs s e}" "(3, 3) \<in> {(s, e). is_run ?bs s e}"
    "(0, 0) \<notin> {(s, e). is_run ?bs s e}"
    unfolding s [symmetric] by simp_all
  then show ?thesis using t by simp
qed

section \<open>Threshold monotonicity\<close>



section \<open>Decibel profiles of the examples\<close>

lemma log10_amin: "log 10 amin = - 10"
proof -
  have "log 10 ((1::real) / 10 ^ 10) = - log 10 (10 ^ 10)"
    by (rule log_recip)
  also have "log 10 ((10::real) ^ 10) = real 10 * log 10 10"
    by (rule log_nat_power) simp
  finally show ?thesis by (simp add: amin_def)
qed

lemma amin_pos: "0 < amin" by (simp add: amin_def)

lemma power_to_db_quotient:
  assumes "amin \<le> r"
  shows "power_to_db S (RefNumber r) = Inr (map (\<lambda>s. 10 * log 10 (max s amin / r)) S)"
proof -
  have r: "0 < r" "\<bar>r\<bar> = r" "max amin r = r" using assms amin_pos by auto
  have "log 10 (max s amin / r) = log 10 (max amin s) - log 10 r" for s
  proof -
    have "0 < max s amin" using amin_pos by (simp add: less_max_iff_disj)
    then show ?thesis using r(1) by (simp add: log_divide_pos max.commute)
  qed
  then show ?thesis by (simp add: power_to_db_def r)
qed

lemma max_amin_small: "x \<le> 0 \<Longrightarrow> max amin x = amin"
  using amin_pos by simp

lemma max_amin_large: "1 / 1000 \<le> x \<Longrightarrow> max amin x = x"
  by (simp add: amin_def max_def)

lemma band_one: "10 powr ((np_clip 1 0 1 * (- (- 100)) + (- 100) + 20) * 0.05) = (10::real)"
  by (simp add: np_clip_def)

lemma band_zero: "10 powr ((np_clip 0 0 1 * (- (- 100)) + (- 100) + 20) * 0.05) = (1 / 10000 :: real)"
proof -
  have "(np_clip 0 0 1 * (- (- 100)) + (- 100) + 20) * 0.05 = (- 4 :: real)"
    by (simp add: np_clip_def)
  then show ?thesis by (simp add: powr_minus_divide)
qed

lemma get_mel_power_mels1:
  "get_mel_power mels1 = Inr [1 / 125, 800, 800, 800, 1 / 125]"
  using band_one band_zero
  by (simp add: get_mel_power_def mels1_def Let_def sum_list_replicate map_replicate)

lemma db_low: "10 * log 10 (1 / 125) - 10 * log 10 800 = (- 50 :: real)"
proof -
  have "log 10 ((1 / 125) / 800) = log 10 (1 / 125) - log 10 (800::real)"
    by (rule log_divide_pos) simp_all
  moreover have "log 10 ((1::real) / 10 ^ 5) = - log 10 (10 ^ 5)"
    by (rule log_recip)
  moreover have "log 10 ((10::real) ^ 5) = real 5 * log 10 10"
    by (rule log_nat_power) simp
  moreover have "(1 / 125) / 800 = (1::real) / 10 ^ 5" by simp
  ultimately have "log 10 (1 / 125) - log 10 (800::real) = - 5" by simp
  then show ?thesis by simp
qed

lemma mel_db_of_mels1:
  "mel_db_of mel1 mels1 False = Inr [- 50, 0, 0, 0, - 50]"
  using db_low
  by (simp add: mel_db_of_def mel1_def get_mel_power_mels1 np_max_def power_to_db_def
      max_amin_large truthy_def) (simp add: mels1_def)

lemma signal_db_of_example:
  "signal_db_of lib1 sig1 [1, 1, 0, 0, 0, 1] = Inr [0, 0, - 100, - 100, - 100, 0]"
  by (simp add: signal_db_of_def lib1_def sig1_def rms_window1_def power_to_db_def np_max_def
      max_amin_small max_amin_large log10_amin)

section \<open>Discarding degenerate runs\<close>

lemma drop_short_stored:
  "drop_short (map (stored conv) rs)
     = Inr (filter (\<lambda>(s, e). e - s > 1) (map (\<lambda>(s, e). (conv (int s), conv (int e))) rs))"
  by (induction rs) (auto simp: stored_def)

lemma sil_mask_length: "sil_mask_of self ty db = Inr m \<Longrightarrow> length m = length db"
  by (auto simp: sil_mask_of_def split: if_splits)

lemma get_nosil_endpoints_runs:
  assumes "mel_db_of self mels g = Inr mel_db"
  shows "get_nosil_endpoints self mels g
     = Inr (filter (\<lambda>(s, e). e - s > 1)
         (map (\<lambda>(s, e). (int s, int e)) (runs (map (\<lambda>d. d > - mel_top_db self) mel_db))))"
  using assms scan_runs [of "map (\<lambda>d. d > - mel_top_db self) mel_db" "\<lambda>x. x"]
  by (simp add: get_nosil_endpoints_def drop_short_stored)

lemma get_sil_endpoints_runs:
  assumes "signal_db_of lib self y = Inr signal_db" "sil_mask_of self ty signal_db = Inr m"
    and "length signal_db \<noteq> 1"
  shows "get_sil_endpoints lib self y ty
     = Inr (filter (\<lambda>(s, e). e - s > 1)
         (map (\<lambda>(s, e). (int s * sig_hop_length self, int e * sig_hop_length self)) (runs m)))"
  using assms scan_runs [of m "\<lambda>x. frames_to_samples x (sig_hop_length self)"]
    sil_mask_length [OF assms(2)]
  by (simp add: get_sil_endpoints_def drop_short_stored frames_to_samples_def)

text \<open>
  C2. Once the decibel profile is there, \<open>MelVad.get_nosil_endpoints\<close> returns the
  runs of the mask \<open>db > -top_db\<close> in frame indices, without exactly those runs that
  have \<open>end - start \<le> 1\<close>; \<open>SigVad._get_sil_endpoints\<close> returns the runs of its
  mask with both ends multiplied by the hop length, without exactly those that have
  \<open>end - start \<le> 1\<close> in samples (a profile of a single frame has no length and
  raises instead). The runs that stay are unchanged and keep their order.
\<close>

theorem degenerate_runs_dropped:
  "(mel_db_of self mels g = Inr mel_db \<longrightarrow>
      get_nosil_endpoints self mels g
        = Inr (filter (\<lambda>(s, e). e - s > 1)
            (map (\<lambda>(s, e). (int s, int e)) (runs (map (\<lambda>d. d > - mel_top_db self) mel_db)))))
   \<and> (signal_db_of lib sv y = Inr signal_db \<and> sil_mask_of sv ty signal_db = Inr m
        \<and> length signal_db \<noteq> 1 \<longrightarrow>
      get_sil_endpoints lib sv y ty
        = Inr (filter (\<lambda>(s, e). e - s > 1)
            (map (\<lambda>(s, e). (int s * sig_hop_length sv, int e * sig_hop_length sv)) (runs m))))"
  using get_nosil_endpoints_runs get_sil_endpoints_runs by blast

lemma runs_mel_example: "runs [False, True, True, True, False] = [(1, 3)]"
  by (simp add: runs_def numeral_eq_Suc)

lemma runs_sig_example: "runs [False, False, True, True, True, False] = [(2, 4)]"
  by (simp add: runs_def numeral_eq_Suc)

theorem degenerate_runs_dropped_witness:
  "mel_db_of mel1 mels1 False = Inr [- 50, 0, 0, 0, - 50]
   \<and> get_nosil_endpoints mel1 mels1 False = Inr [(1, 3)]
   \<and> signal_db_of lib1 sig1 [1, 1, 0, 0, 0, 1] = Inr [0, 0, - 100, - 100, - 100, 0]
   \<and> sil_mask_of sig1 ''sil'' [0, 0, - 100, - 100, - 100, 0]
        = Inr [False, False, True, True, True, False]
   \<and> get_sil_endpoints lib1 sig1 [1, 1, 0, 0, 0, 1] ''sil'' = Inr [(2, 4)]"
proof -
  have m: "sil_mask_of sig1 ''sil'' [0, 0, - 100, - 100, - 100, 0]
        = Inr [False, False, True, True, True, False]"
    by (simp add: sil_mask_of_def sig1_def)
  show ?thesis
    using degenerate_runs_dropped [of mel1 mels1 False "[- 50, 0, 0, 0, - 50]" lib1 sig1
        "[1, 1, 0, 0, 0, 1]" "[0, 0, - 100, - 100, - 100, 0]" "''sil''"
        "[False, False, True, True, True, False]"]
      mel_db_of_mels1 signal_db_of_example m
    by (simp add: mel1_def sig1_def runs_mel_example runs_sig_example)
qed

section \<open>From silence to speech intervals\<close>

lemma foldl_snoc_map: "foldl (\<lambda>acc i. acc @ [f i]) init xs = init @ map f xs"
  by (induction xs arbitrary: init) auto

text \<open>
  C3. On a non-empty list of silence intervals, \<open>SigVad._sil_to_nosil\<close> returns, in
  this order: the leading interval \<open>(0.0, first start)\<close> exactly when the first start
  exceeds 0.001; for each pair of neighbours the interval from the end of the earlier to
  the start of the later, unconditionally; the trailing interval \<open>(last end, dur)\<close>
  exactly when \<open>dur\<close> minus the last end exceeds 0.001.
\<close>

theorem sil_to_nosil_complement:
  assumes "sil \<noteq> []"
  shows "sil_to_nosil sil dur =
     Inr ((if fst (hd sil) > 0.001 then [(0, fst (hd sil))] else [])
          @ map (\<lambda>i. (snd (sil ! i), fst (sil ! Suc i))) [0..<length sil - 1]
          @ (if dur - snd (last sil) > 0.001 then [(snd (last sil), dur)] else []))"
  using assms by (simp add: sil_to_nosil_def Let_def foldl_snoc_map hd_conv_nth)

theorem sil_to_nosil_complement_witness:
  "[(0.5, 1.5), (2, 2.5 :: real)] \<noteq> []
   \<and> sil_to_nosil [(0.5, 1.5), (2, 2.5)] 3 = Inr [(0, 0.5), (1.5, 2), (2.5, 3)]
   \<and> sil_to_nosil [(0, 1.5), (2, 3)] 3 = Inr [(1.5, 2)]"
  using sil_to_nosil_complement [of "[(0.5, 1.5), (2, 2.5)]" 3]
    sil_to_nosil_complement [of "[(0, 1.5), (2, 3)]" 3]
  by (simp add: numeral_2_eq_2)

section \<open>Feature-to-power conversion\<close>

lemma np_clip_unit: "np_clip v 0 1 = clip_unit v"
  by (simp add: np_clip_def clip_unit_def)

text \<open>
  C6. For a feature matrix of 80 bands, \<open>MelVad._get_mel_power\<close> equals the reference
  conversion with \<open>refLevelDb = 20\<close> and \<open>minLevelDb = -100\<close>: every value is clipped
  to \<open>[0, 1]\<close>, rescaled as \<open>clipped * (-minLevelDb) + minLevelDb\<close>, turned into
  \<open>10 ^ ((clipped + refLevelDb) * 0.05)\<close> and summed over the bands, one value per
  frame.
\<close>

theorem get_mel_power_reference:
  assumes "feat_dims mels = 80"
  shows "get_mel_power mels = Inr (featureToPower (frames mels) 20 (- 100))
       \<and> length (featureToPower (frames mels) 20 (- 100)) = length (frames mels)"
  using assms
  by (simp add: get_mel_power_def featureToPower_def Let_def np_clip_unit comp_def)

theorem get_mel_power_reference_witness:
  "feat_dims mels1 = 80
   \<and> get_mel_power mels1 = Inr (featureToPower (frames mels1) 20 (- 100))
   \<and> featureToPower (frames mels1) 20 (- 100) = [1 / 125, 800, 800, 800, 1 / 125]"
proof -
  have f: "feat_dims mels1 = 80" by (simp add: mels1_def)
  show ?thesis
    using get_mel_power_reference [OF f] f get_mel_power_mels1 by simp
qed

section \<open>A single frame against its own maximum\<close>

lemma mel_power_nonneg:
  "get_mel_power mels = Inr ps \<Longrightarrow> p \<in> set ps \<Longrightarrow> 0 \<le> p"
  by (auto simp: get_mel_power_def Let_def split: if_splits intro!: sum_list_nonneg)

text \<open>
  C10. For one frame of 80 bands and a positive \<open>top_db\<close>, \<open>MelVad.get_vad_label\<close>
  with \<open>using_global_ref = False\<close> returns \<open>True\<close>: the reference is the frame's own
  power, the decibel value is 0, and \<open>0 > -top_db\<close>.
\<close>

theorem single_frame_local_ref_is_speech:
  assumes "feat_dims mels = 80" "frames mels = [fr]" "0 < mel_top_db self"
  shows "get_vad_label self mels False = Inr True"
proof -
  obtain p where p: "get_mel_power mels = Inr [p]"
    using assms by (simp add: get_mel_power_def Let_def)
  have "0 \<le> p" using mel_power_nonneg [OF p] by simp
  then have "power_to_db [p] (RefNumber p) = Inr [0]"
    by (simp add: power_to_db_def)
  then show ?thesis
    using assms p by (simp add: get_vad_label_def mel_db_of_def np_max_def)
qed

theorem single_frame_local_ref_is_speech_witness:
  "feat_dims \<lparr>feat_dims = 80, frames = [replicate 80 0]\<rparr> = 80
   \<and> (0::real) < mel_top_db mel1
   \<and> get_vad_label mel1 \<lparr>feat_dims = 80, frames = [replicate 80 0]\<rparr> False = Inr True"
  using single_frame_local_ref_is_speech
    [of "\<lparr>feat_dims = 80, frames = [replicate 80 0]\<rparr>" "replicate 80 0" mel1]
  by (simp add: mel1_def)

section \<open>Precondition violations\<close>

lemma mel_db_of_assert:
  "feat_dims mels \<noteq> 80 \<or> (g \<and> \<not> truthy (mel_global_ref_db self))
     \<Longrightarrow> mel_db_of self mels g = Inl AssertionError"
  by (auto simp: mel_db_of_def)

text \<open>
  C7. \<open>MelVad.get_vad_label\<close> and \<open>MelVad.get_nosil_endpoints\<close> fail with
  AssertionError when the last dimension of the features is not 80, and when the global
  reference is requested while none is configured (\<open>None\<close>, or the falsy \<open>0\<close>).
  \<open>SigVad._get_sil_endpoints\<close> returns no result when the kind is neither
  \<open>"sil"\<close> nor \<open>"nosil"\<close>: it raises, and whenever the decibel profile could be
  computed what it raises is \<open>Exception("Error for sil type")\<close>.
\<close>

theorem precondition_violations_raise:
  "(feat_dims mels \<noteq> 80 \<or> (g \<and> \<not> truthy (mel_global_ref_db self)) \<longrightarrow>
      get_vad_label self mels g = Inl AssertionError
      \<and> get_nosil_endpoints self mels g = Inl AssertionError)
   \<and> (ty \<noteq> ''sil'' \<and> ty \<noteq> ''nosil'' \<longrightarrow>
      (\<exists>err. get_sil_endpoints lib sv y ty = Inl err)
      \<and> (\<forall>db. signal_db_of lib sv y = Inr db \<longrightarrow>
            get_sil_endpoints lib sv y ty = Inl (Exception ''Error for sil type'')))"
proof -
  have a: "get_vad_label self mels g = Inl AssertionError
      \<and> get_nosil_endpoints self mels g = Inl AssertionError"
    if "feat_dims mels \<noteq> 80 \<or> (g \<and> \<not> truthy (mel_global_ref_db self))"
    using mel_db_of_assert [OF that]
    by (simp add: get_vad_label_def get_nosil_endpoints_def)
  have b: "(\<exists>err. get_sil_endpoints lib sv y ty = Inl err)
      \<and> (\<forall>db. signal_db_of lib sv y = Inr db \<longrightarrow>
            get_sil_endpoints lib sv y ty = Inl (Exception ''Error for sil type''))"
    if "ty \<noteq> ''sil'' \<and> ty \<noteq> ''nosil''"
    using that
    by (cases "signal_db_of lib sv y") (simp_all add: get_sil_endpoints_def sil_mask_of_def)
  show ?thesis using a b by blast
qed

theorem precondition_violations_raise_witness:
  "get_vad_label mel1 \<lparr>feat_dims = 40, frames = [replicate 40 0]\<rparr> False = Inl AssertionError
   \<and> get_nosil_endpoints mel1 \<lparr>feat_dims = 40, frames = [replicate 40 0]\<rparr> False
        = Inl AssertionError
   \<and> mel_global_ref_db mel1 = None
   \<and> get_vad_label mel1 mels1 True = Inl AssertionError
   \<and> get_nosil_endpoints mel1 mels1 True = Inl AssertionError
   \<and> signal_db_of lib1 sig1 [1, 1, 0, 0, 0, 1] = Inr [0, 0, - 100, - 100, - 100, 0]
   \<and> get_sil_endpoints lib1 sig1 [1, 1, 0, 0, 0, 1] ''speech''
        = Inl (Exception ''Error for sil type'')"
  using precondition_violations_raise
      [of "\<lparr>feat_dims = 40, frames = [replicate 40 0]\<rparr>" False mel1 "''speech''" lib1 sig1
          "[1, 1, 0, 0, 0, 1]"]
    precondition_violations_raise [of mels1 True mel1 "''speech''" lib1 sig1 "[1, 1, 0, 0, 0, 1]"]
    signal_db_of_example
  by (simp add: mel1_def truthy_def)

section \<open>Ordering of the returned intervals\<close>

lemma separated_ordered: "separated ivs \<Longrightarrow> ordered_intervals ivs"
proof -
  assume s: "separated ivs"
  have "sorted_wrt (\<lambda>a b. fst a \<le> fst b \<and> snd a \<le> fst b) ivs"
  proof (rule sorted_wrt_mono_rel [of ivs "\<lambda>a b. snd a < fst b"])
    fix a b
    assume "a \<in> set ivs" "b \<in> set ivs" "snd a < fst b"
    then show "fst a \<le> fst b \<and> snd a \<le> fst b"
      using s by (auto simp: separated_def list_all_iff)
  next
    show "sorted_wrt (\<lambda>a b. snd a < fst b) ivs" using s by (simp add: separated_def)
  qed
  then show ?thesis using s by (simp add: separated_def ordered_intervals_def)
qed

lemma separated_filter: "separated ivs \<Longrightarrow> separated (filter P ivs)"
  by (auto simp: separated_def list_all_iff intro: sorted_wrt_filter)

lemma scaled_runs_separated:
  "separated (filter (\<lambda>(s, e). e - s > 1) (map (\<lambda>(s, e). (int s * h, int e * h)) (runs m)))"
proof (cases "0 < h")
  case True
  have "sorted_wrt (\<lambda>a b. snd a < fst b) (map (\<lambda>(s, e). (int s * h, int e * h)) (runs m))"
    unfolding sorted_wrt_map
  proof (rule sorted_wrt_mono_rel [OF _ sorted_runs])
    fix a b :: "nat \<times> nat"
    assume "Suc (snd a) < fst b"
    then have "int (snd a) < int (fst b)" by simp
    then have "int (snd a) * h < int (fst b) * h" using True by simp
    then show "snd (case a of (s, e) \<Rightarrow> (int s * h, int e * h))
        < fst (case b of (s, e) \<Rightarrow> (int s * h, int e * h))"
      by (simp add: case_prod_beta)
  qed
  then show ?thesis
    by (auto simp: separated_def list_all_iff intro: sorted_wrt_filter)
next
  case False
  have "\<not> (int e * h - int s * h > 1)" if "(s, e) \<in> set (runs m)" for s e
  proof -
    have "s \<le> e" using runs_bound [OF that] by simp
    then have "(int e - int s) * h \<le> 0" using False
      by (simp add: mult_nonneg_nonpos)
    then show ?thesis by (simp add: algebra_simps)
  qed
  then have "filter (\<lambda>(s, e). e - s > 1) (map (\<lambda>(s, e). (int s * h, int e * h)) (runs m)) = []"
    by (auto simp: filter_empty_conv)
  then show ?thesis by (simp add: separated_def)
qed

lemma get_nosil_endpoints_separated:
  assumes "get_nosil_endpoints self mels g = Inr ivs"
  shows "separated ivs"
proof -
  obtain db where db: "mel_db_of self mels g = Inr db"
    using assms by (cases "mel_db_of self mels g") (simp_all add: get_nosil_endpoints_def)
  let ?m = "map (\<lambda>d. d > - mel_top_db self) db"
  have "ivs = filter (\<lambda>(s, e). e - s > 1) (map (\<lambda>(s, e). (int s, int e)) (runs ?m))"
    using assms unfolding get_nosil_endpoints_runs [OF db] by simp
  then show ?thesis using scaled_runs_separated [of 1 ?m] by simp
qed

lemma get_sil_endpoints_separated:
  assumes "get_sil_endpoints lib sv y ty = Inr ivs"
  shows "separated ivs"
proof -
  obtain db where db: "signal_db_of lib sv y = Inr db"
    using assms by (cases "signal_db_of lib sv y") (simp_all add: get_sil_endpoints_def)
  obtain m where m: "sil_mask_of sv ty db = Inr m"
    using assms db by (cases "sil_mask_of sv ty db") (simp_all add: get_sil_endpoints_def)
  have l: "length db \<noteq> 1"
    using assms db m by (auto simp: get_sil_endpoints_def split: if_splits)
  have "ivs = filter (\<lambda>(s, e). e - s > 1)
      (map (\<lambda>(s, e). (int s * sig_hop_length sv, int e * sig_hop_length sv)) (runs m))"
    using assms unfolding get_sil_endpoints_runs [OF db m l] by simp
  then show ?thesis using scaled_runs_separated [of "sig_hop_length sv" m] by simp
qed

lemma seconds_separated:
  assumes "separated xs" "0 < r"
  shows "separated (map (\<lambda>(s, e). (real_of_int s / real_of_int r, real_of_int e / real_of_int r)) xs)"
proof -
  let ?f = "\<lambda>(s, e). (real_of_int s / real_of_int r, real_of_int e / real_of_int r)"
  have r: "0 < real_of_int r" using assms(2) by simp
  have "sorted_wrt (\<lambda>a b. snd a < fst b) (map ?f xs)"
    unfolding sorted_wrt_map
  proof (rule sorted_wrt_mono_rel [of xs "\<lambda>a b. snd a < fst b"])
    fix a b :: "int \<times> int"
    assume "snd a < fst b"
    then have "real_of_int (snd a) / real_of_int r < real_of_int (fst b) / real_of_int r"
      using r by (simp add: divide_strict_right_mono)
    then show "snd (?f a) < fst (?f b)" by (simp add: case_prod_beta)
  next
    show "sorted_wrt (\<lambda>a b. snd a < fst b) xs" using assms(1) by (simp add: separated_def)
  qed
  moreover have "list_all (\<lambda>iv. fst iv < snd iv) (map ?f xs)"
    using assms(1) r
    by (auto simp: separated_def list_all_iff divide_strict_right_mono)
  ultimately show ?thesis by (simp add: separated_def)
qed

lemma long_silences_separated:
  "separated sil0 \<Longrightarrow> 0 < r \<Longrightarrow> separated (long_silences r a sil0)"
  unfolding long_silences_def by (intro seconds_separated separated_filter)


lemma ordered_filter: "ordered_intervals ivs \<Longrightarrow> ordered_intervals (filter P ivs)"
  by (auto simp: ordered_intervals_def list_all_iff intro: sorted_wrt_filter)

lemma sil_to_nosil_parts:
  assumes "sil \<noteq> []"
  shows "sil_to_nosil sil dur =
     Inr ((if fst (sil ! 0) > 0.001 then [(0, fst (sil ! 0))] else [])
          @ map (\<lambda>i. (snd (sil ! i), fst (sil ! Suc i))) [0..<length sil - 1]
          @ (if dur - snd (sil ! (length sil - 1)) > 0.001
             then [(snd (sil ! (length sil - 1)), dur)] else []))"
  using assms by (simp add: sil_to_nosil_def Let_def foldl_snoc_map last_conv_nth)

lemma complement_ordered:
  assumes sep: "separated sil" and ne: "sil \<noteq> []" and res: "sil_to_nosil sil dur = Inr nosil"
  shows "ordered_intervals nosil"
proof -
  define n where "n = length sil"
  define g where "g = (\<lambda>i. (snd (sil ! i), fst (sil ! Suc i)))"
  define lead where "lead = (if fst (sil ! 0) > 0.001 then [(0::real, fst (sil ! 0))] else [])"
  define trail where "trail = (if dur - snd (sil ! (n - 1)) > 0.001
      then [(snd (sil ! (n - 1)), dur)] else [])"
  let ?R = "\<lambda>a b :: real \<times> real. fst a \<le> fst b \<and> snd a \<le> fst b"
  have n: "0 < n" using ne by (simp add: n_def)
  have lt: "snd (sil ! i) < fst (sil ! j)" if "i < j" "j < n" for i j
    using sep that by (simp add: separated_def sorted_wrt_iff_nth_less n_def)
  have pos: "fst (sil ! i) < snd (sil ! i)" if "i < n" for i
    using sep that by (simp add: separated_def list_all_length n_def)
  have mf: "fst (sil ! i) \<le> fst (sil ! j)" if "i \<le> j" "j < n" for i j
  proof (cases "i = j")
    case False
    then have "i < j" using that by simp
    then show ?thesis using lt [of i j] pos [of i] that by simp
  qed simp
  have ms: "snd (sil ! i) \<le> snd (sil ! j)" if "i \<le> j" "j < n" for i j
  proof (cases "i = j")
    case False
    then have "i < j" using that by simp
    then show ?thesis using lt [of i j] pos [of j] that by simp
  qed simp
  have nosil: "nosil = lead @ map g [0..<n - 1] @ trail"
    using res unfolding sil_to_nosil_parts [OF ne] lead_def trail_def g_def n_def by auto
  have gaps_sorted: "sorted_wrt ?R (map g [0..<n - 1])"
    unfolding sorted_wrt_map
  proof (rule sorted_wrt_mono_rel [of "[0..<n - 1]" "(<)"])
    fix i j
    assume "i \<in> set [0..<n - 1]" "j \<in> set [0..<n - 1]" "i < j"
    then have ij: "i < j" "j < n" "Suc i \<le> j" "Suc i < n" by auto
    have "fst (sil ! Suc i) < snd (sil ! Suc i)" using pos ij by simp
    moreover have "snd (sil ! Suc i) \<le> snd (sil ! j)" using ms ij by simp
    moreover have "snd (sil ! i) \<le> snd (sil ! j)" using ms ij by simp
    ultimately show "?R (g i) (g j)" by (simp add: g_def)
  qed simp
  have lead_gap: "?R a (g i)" if "a \<in> set lead" "i < n - 1" for a i
  proof -
    have "0 < fst (sil ! 0)" "a = (0, fst (sil ! 0))"
      using that by (auto simp: lead_def split: if_splits)
    moreover have "fst (sil ! 0) \<le> fst (sil ! i)" using mf [of 0 i] that by simp
    moreover have "fst (sil ! i) < snd (sil ! i)" using pos that by simp
    ultimately show ?thesis by (simp add: g_def)
  qed
  have lead_trail: "?R a b" if "a \<in> set lead" "b \<in> set trail" for a b
  proof -
    have "0 < fst (sil ! 0)" "a = (0, fst (sil ! 0))"
      using that by (auto simp: lead_def split: if_splits)
    moreover have "b = (snd (sil ! (n - 1)), dur)"
      using that by (auto simp: trail_def split: if_splits)
    moreover have "fst (sil ! 0) \<le> fst (sil ! (n - 1))" using mf [of 0 "n - 1"] n by simp
    moreover have "fst (sil ! (n - 1)) < snd (sil ! (n - 1))" using pos n by simp
    ultimately show ?thesis by simp
  qed
  have gap_trail: "?R (g i) b" if "i < n - 1" "b \<in> set trail" for i b
  proof -
    have "b = (snd (sil ! (n - 1)), dur)"
      using that by (auto simp: trail_def split: if_splits)
    moreover have "snd (sil ! i) \<le> snd (sil ! (n - 1))" using ms [of i "n - 1"] that by simp
    moreover have "fst (sil ! Suc i) < snd (sil ! Suc i)" using pos that by simp
    moreover have "snd (sil ! Suc i) \<le> snd (sil ! (n - 1))"
      using ms [of "Suc i" "n - 1"] that by simp
    ultimately show ?thesis by (simp add: g_def)
  qed
  have "sorted_wrt ?R lead" "sorted_wrt ?R trail"
    by (simp_all add: lead_def trail_def)
  then have sorted: "sorted_wrt ?R nosil"
    unfolding nosil sorted_wrt_append
    using gaps_sorted lead_gap lead_trail gap_trail by auto
  have "fst a < snd a" if "a \<in> set lead" for a
    using that by (auto simp: lead_def split: if_splits)
  moreover have "fst a < snd a" if "a \<in> set trail" for a
    using that by (auto simp: trail_def split: if_splits)
  moreover have "fst (g i) < snd (g i)" if "i < n - 1" for i
    using lt [of i "Suc i"] that by (simp add: g_def)
  ultimately have "list_all (\<lambda>iv. fst iv < snd iv) nosil"
    unfolding nosil by (auto simp: list_all_iff)
  then show ?thesis using sorted by (simp add: ordered_intervals_def)
qed

lemma get_speech_endpoint_resolved:
  assumes "resolve_input lib wp sg sr = Inr (Some y, Some r)" "r \<noteq> 0"
    and "get_sil_endpoints lib sv y ''sil'' = Inr sil0"
  shows "get_speech_endpoint lib sv wp sg sr a b =
     (if long_silences r a sil0 = [] then Inr [(0, real (length y) / real_of_int r)]
      else case sil_to_nosil (long_silences r a sil0) (real (length y) / real_of_int r) of
             Inl err \<Rightarrow> Inl err
           | Inr ns \<Rightarrow> Inr (filter (\<lambda>(s, e). e - s > b) ns))"
  using assms by (simp add: get_speech_endpoint_def Let_def)

lemma get_speech_endpoint_failed:
  assumes "resolve_input lib wp sg sr = Inr (Some y, Some r)"
    and "get_sil_endpoints lib sv y ''sil'' = Inl err"
  shows "get_speech_endpoint lib sv wp sg sr a b = Inl (if r = 0 then ZeroDivisionError else err)"
  using assms by (simp add: get_speech_endpoint_def Let_def)

lemma get_speech_endpoint_ordered:
  assumes res: "resolve_input lib wp sg sr = Inr (Some y, Some r)" and r: "0 < r"
    and y: "y \<noteq> []" and out: "get_speech_endpoint lib sv wp sg sr a b = Inr ivs"
  shows "ordered_intervals ivs"
proof (cases "get_sil_endpoints lib sv y ''sil''")
  case (Inl err)
  then show ?thesis using get_speech_endpoint_failed [OF res Inl] out by simp
next
  case (Inr sil0)
  have r0: "r \<noteq> 0" using r by simp
  note eq = get_speech_endpoint_resolved [OF res r0 Inr, of a b]
  have sep: "separated (long_silences r a sil0)"
    using get_sil_endpoints_separated [OF Inr] r by (rule long_silences_separated)
  show ?thesis
  proof (cases "long_silences r a sil0 = []")
    case True
    then have "ivs = [(0, real (length y) / real_of_int r)]" using eq out by simp
    then show ?thesis using y r by (simp add: ordered_intervals_def)
  next
    case False
    then obtain ns where ns: "sil_to_nosil (long_silences r a sil0) (real (length y) / real_of_int r) = Inr ns"
      by (simp add: sil_to_nosil_parts)
    have "ivs = filter (\<lambda>(s, e). e - s > b) ns" using eq out False ns by simp
    then show ?thesis using complement_ordered [OF sep False ns] by (simp add: ordered_filter)
  qed
qed

section \<open>Profiles without silence, and the running examples\<close>

lemma fold_max_const: "\<forall>x\<in>set xs. x = c \<Longrightarrow> fold max xs c = (c::real)"
  by (induction xs) auto

lemma np_max_const: "set xs = {c} \<Longrightarrow> np_max xs = Inr c"
proof (cases xs)
  case Nil
  assume "set xs = {c}"
  then show ?thesis using Nil by simp
next
  case (Cons y ys)
  assume "set xs = {c}"
  then have "y = c" "\<forall>x\<in>set ys. x = c" using Cons by auto
  then show ?thesis using Cons by (simp add: np_max_def fold_max_const)
qed

lemma scan_step_nil: "scan_step [] conv st x = st"
  by (cases st) (simp add: scan_step_def)

lemma scan_nil: "scan [] conv n = []"
proof -
  have "foldl (scan_step [] conv) st xs = st" for st xs
    by (induction xs) (simp_all add: scan_step_nil)
  then show ?thesis by (simp add: scan_def)
qed

lemma np_where_none:
  assumes "\<forall>b\<in>set bs. \<not> b"
  shows "np_where bs = []"
proof -
  have "\<not> bs ! nat i" if "i \<in> set [0..int (length bs) - 1]" for i
  proof -
    have "nat i < length bs" using that by auto
    then have "bs ! nat i \<in> set bs" by (rule nth_mem)
    then show ?thesis using assms by blast
  qed
  then show ?thesis unfolding np_where_def filter_empty_conv by blast
qed

lemma constant_profile_no_silence:
  assumes e: "rms lib y (sig_frame_length sv) (sig_hop_length sv) = Inr e" and c: "set e = {c}"
    and rf: "sig_ref sv = RefCallable np_max" and t: "0 \<le> sig_top_db sv"
    and l: "length e \<noteq> 1"
  shows "get_sil_endpoints lib sv y ''sil'' = Inr []"
proof -
  have "set (map (\<lambda>v. v ^ 2) e) = {c ^ 2}" using c by auto
  then have mx: "np_max (map (\<lambda>v. v ^ 2) e) = Inr (c ^ 2)" by (rule np_max_const)
  have "map (\<lambda>s. 10 * log 10 (max amin s) - 10 * log 10 (max amin (c ^ 2))) (map (\<lambda>v. v ^ 2) e)
      = map (\<lambda>v. 0) e"
    using c by (intro map_cong [OF refl, THEN trans [OF map_map]]) auto
  then have db: "signal_db_of lib sv y = Inr (map (\<lambda>v. 0) e)"
    using e rf mx by (simp add: signal_db_of_def power_to_db_def)
  have "np_where (map (\<lambda>d. d < - sig_top_db sv) (map (\<lambda>v. 0::real) e)) = []"
    using t by (intro np_where_none) auto
  then show ?thesis
    using db l by (simp add: get_sil_endpoints_def sil_mask_of_def scan_nil)
qed

lemma resolve_input_direct: "resolve_input lib None sg sr = Inr (sg, sr)"
  by (simp add: resolve_input_def)

lemma get_nosil_endpoints_mels1: "get_nosil_endpoints mel1 mels1 False = Inr [(1, 3)]"
  unfolding get_nosil_endpoints_runs [OF mel_db_of_mels1]
  by (simp add: mel1_def runs_mel_example)

lemma sil_mask_example:
  "sil_mask_of sig1 ''sil'' [0, 0, - 100, - 100, - 100, 0]
     = Inr [False, False, True, True, True, False]"
  by (simp add: sil_mask_of_def sig1_def)

lemma get_sil_endpoints_example:
  "get_sil_endpoints lib1 sig1 [1, 1, 0, 0, 0, 1] ''sil'' = Inr [(2, 4)]"
proof -
  have l: "length [0, 0, - 100, - 100, - 100, 0 :: real] \<noteq> 1" by simp
  show ?thesis
    unfolding get_sil_endpoints_runs [OF signal_db_of_example sil_mask_example l]
    by (simp add: sig1_def runs_sig_example)
qed

lemma long_silences_example: "long_silences 2 0.75 [(2, 4)] = [(1, 2)]"
  by (simp add: long_silences_def)

lemma sil_to_nosil_example: "sil_to_nosil [(1, 2)] 3 = Inr [(0, 1), (2, 3)]"
  by (simp add: sil_to_nosil_parts)

lemma get_speech_endpoint_example:
  "get_speech_endpoint lib1 sig1 None (Some [1, 1, 0, 0, 0, 1]) (Some 2) 0.75 0.4
     = Inr [(0, 1), (2, 3)]"
proof -
  have r: "(2::int) \<noteq> 0" by simp
  have d: "real (length [1, 1, 0, 0, 0, 1 :: real]) / real_of_int 2 = 3" by simp
  show ?thesis
    unfolding get_speech_endpoint_resolved [OF resolve_input_direct r get_sil_endpoints_example]
      long_silences_example d sil_to_nosil_example
    by simp
qed

lemma rms_ones: "rms lib1 (replicate 1600 1) fl hop = Inr (replicate 1600 1)"
  by (simp add: lib1_def rms_window1_def)

lemma get_sil_endpoints_ones:
  "get_sil_endpoints lib1 sig1 (replicate 1600 1) ''sil'' = Inr []"
proof (rule constant_profile_no_silence [where c = 1 and e = "replicate 1600 1"])
  show "rms lib1 (replicate 1600 1) (sig_frame_length sig1) (sig_hop_length sig1)
      = Inr (replicate 1600 1)"
    by (rule rms_ones)
  show "set (replicate 1600 (1::real)) = {1}" by simp
  show "sig_ref sig1 = RefCallable np_max" by (simp add: sig1_def)
  show "0 \<le> sig_top_db sig1" by (simp add: sig1_def)
  show "length (replicate 1600 (1::real)) \<noteq> 1" by simp
qed

lemma long_silences_duration:
  assumes "0 < r" "iv \<in> set (long_silences r a sil0)"
  shows "snd iv - fst iv > a"
proof -
  obtain s e where se: "(s, e) \<in> set sil0" "real_of_int (e - s) > real_of_int r * a"
    "iv = (real_of_int s / real_of_int r, real_of_int e / real_of_int r)"
    using assms(2) by (auto simp: long_silences_def)
  have "a < real_of_int (e - s) / real_of_int r"
    using se(2) assms(1) by (simp add: pos_less_divide_eq mult.commute)
  then show ?thesis using se(3) by (simp add: diff_divide_distrib)
qed

section \<open>Properties of the interval lists\<close>

text \<open>
  C8. Every interval list returned by \<open>MelVad.get_nosil_endpoints\<close> and by
  \<open>SigVad._get_sil_endpoints\<close> ascends by start, has each interval end no later than
  the next one starts, and has \<open>start < end\<close> in every interval, whatever the input. The
  same holds for every list returned by \<open>SigVad.get_speech_endpoint\<close> on a non-empty
  signal with a positive sample rate.
\<close>

theorem ordered_output:
  "(get_nosil_endpoints self mels g = Inr ivs1 \<longrightarrow> ordered_intervals ivs1)
   \<and> (get_sil_endpoints lib sv y ty = Inr ivs2 \<longrightarrow> ordered_intervals ivs2)
   \<and> (resolve_input lib wp sg sr = Inr (Some y', Some r) \<and> 0 < r \<and> y' \<noteq> []
        \<and> get_speech_endpoint lib sv' wp sg sr a b = Inr ivs3 \<longrightarrow> ordered_intervals ivs3)"
  using get_nosil_endpoints_separated [THEN separated_ordered]
    get_sil_endpoints_separated [THEN separated_ordered] get_speech_endpoint_ordered
  by blast

theorem ordered_output_witness:
  "get_nosil_endpoints mel1 mels1 False = Inr [(1, 3)]
   \<and> ordered_intervals [(1, 3 :: int)]
   \<and> get_sil_endpoints lib1 sig1 [1, 1, 0, 0, 0, 1] ''sil'' = Inr [(2, 4)]
   \<and> ordered_intervals [(2, 4 :: int)]
   \<and> resolve_input lib1 None (Some [1, 1, 0, 0, 0, 1]) (Some 2)
        = Inr (Some [1, 1, 0, 0, 0, 1], Some 2)
   \<and> get_speech_endpoint lib1 sig1 None (Some [1, 1, 0, 0, 0, 1]) (Some 2) 0.75 0.4
        = Inr [(0, 1), (2, 3)]
   \<and> ordered_intervals [(0, 1), (2, 3 :: real)]"
  using ordered_output [of mel1 mels1 False "[(1, 3)]" lib1 sig1 "[1, 1, 0, 0, 0, 1]" "''sil''"
      "[(2, 4)]" None "Some [1, 1, 0, 0, 0, 1]" "Some 2" "[1, 1, 0, 0, 0, 1]" 2 sig1 "0.75" "0.4"
      "[(0, 1), (2, 3)]"]
    get_nosil_endpoints_mels1 get_sil_endpoints_example get_speech_endpoint_example
  by (simp add: resolve_input_direct)

text \<open>
  C4. When no silence interval passes the \<open>min_sil_dur\<close> test,
  \<open>SigVad.get_speech_endpoint\<close> returns exactly \<open>[(0.0, len(signal) / sr)]\<close>. In
  particular, with the default reference \<open>np.max\<close> and a threshold \<open>top_db \<ge> 0\<close>, a
  waveform of 48000 samples at 16000 Hz whose short-time energy is zero in every frame
  (more than one frame) yields \<open>[(0.0, 3.0)]\<close> for \<open>min_sil_dur = 0.75\<close>.
\<close>

theorem no_silence_gives_whole_clip:
  "(resolve_input lib wp sg sr = Inr (Some y, Some r) \<and> r \<noteq> 0
      \<and> get_sil_endpoints lib sv y ''sil'' = Inr sil0 \<and> long_silences r a sil0 = [] \<longrightarrow>
      get_speech_endpoint lib sv wp sg sr a b = Inr [(0, real (length y) / real_of_int r)])
   \<and> (rms lib y' (sig_frame_length sv') (sig_hop_length sv') = Inr e \<and> set e = {0}
      \<and> length e \<noteq> 1 \<and> sig_ref sv' = RefCallable np_max \<and> 0 \<le> sig_top_db sv'
      \<and> length y' = 48000 \<longrightarrow>
      get_speech_endpoint lib sv' None (Some y') (Some 16000) 0.75 b' = Inr [(0, 3)])"
proof -
  have a: "get_speech_endpoint lib sv wp sg sr a b = Inr [(0, real (length y) / real_of_int r)]"
    if "resolve_input lib wp sg sr = Inr (Some y, Some r)" "r \<noteq> 0"
      "get_sil_endpoints lib sv y ''sil'' = Inr sil0" "long_silences r a sil0 = []"
    using get_speech_endpoint_resolved [OF that(1-3), of a b] that(4) by simp
  have b: "get_speech_endpoint lib sv' None (Some y') (Some 16000) 0.75 b' = Inr [(0, 3)]"
    if "rms lib y' (sig_frame_length sv') (sig_hop_length sv') = Inr e" "set e = {0}"
      "length e \<noteq> 1" "sig_ref sv' = RefCallable np_max" "0 \<le> sig_top_db sv'"
      "length y' = 48000"
  proof -
    have "get_sil_endpoints lib sv' y' ''sil'' = Inr []"
      using that(1,2,4,5,3) by (rule constant_profile_no_silence)
    then show ?thesis
      using get_speech_endpoint_resolved [OF resolve_input_direct, of 16000 lib sv' y' "[]" "0.75" b']
        that(6)
      by (simp add: long_silences_def)
  qed
  show ?thesis using a b by blast
qed

theorem no_silence_gives_whole_clip_witness:
  "rms lib1 (replicate 48000 0) (sig_frame_length sig1) (sig_hop_length sig1)
     = Inr (replicate 48000 0)
   \<and> get_speech_endpoint lib1 sig1 None (Some (replicate 48000 0)) (Some 16000) 0.75 0.4
        = Inr [(0, 3)]
   \<and> get_sil_endpoints lib1 sig1 (replicate 1600 1) ''sil'' = Inr []
   \<and> get_speech_endpoint lib1 sig1 None (Some (replicate 1600 1)) (Some 16000) 0.75 0.4
        = Inr [(0, 1 / 10)]"
proof -
  have z: "rms lib1 (replicate 48000 0) (sig_frame_length sig1) (sig_hop_length sig1)
     = Inr (replicate 48000 0)"
    by (simp add: lib1_def rms_window1_def)
  have general: "resolve_input lib1 None (Some (replicate 1600 1)) (Some 16000)
        = Inr (Some (replicate 1600 1), Some 16000) \<and> (16000::int) \<noteq> 0
      \<and> get_sil_endpoints lib1 sig1 (replicate 1600 1) ''sil'' = Inr []
      \<and> long_silences 16000 0.75 [] = [] \<longrightarrow>
      get_speech_endpoint lib1 sig1 None (Some (replicate 1600 1)) (Some 16000) 0.75 0.4
        = Inr [(0, real (length (replicate 1600 (1::real))) / real_of_int 16000)]"
    by (rule no_silence_gives_whole_clip [THEN conjunct1])
  have scenario: "rms lib1 (replicate 48000 0) (sig_frame_length sig1) (sig_hop_length sig1)
        = Inr (replicate 48000 0) \<and> set (replicate 48000 (0::real)) = {0}
      \<and> length (replicate 48000 (0::real)) \<noteq> 1
      \<and> sig_ref sig1 = RefCallable np_max \<and> 0 \<le> sig_top_db sig1
      \<and> length (replicate 48000 (0::real)) = 48000 \<longrightarrow>
      get_speech_endpoint lib1 sig1 None (Some (replicate 48000 0)) (Some 16000) 0.75 0.4
        = Inr [(0, 3)]"
    by (rule no_silence_gives_whole_clip [THEN conjunct2])
  have "get_speech_endpoint lib1 sig1 None (Some (replicate 48000 0)) (Some 16000) 0.75 0.4
        = Inr [(0, 3)]"
    using scenario z by (simp add: sig1_def)
  moreover have "get_speech_endpoint lib1 sig1 None (Some (replicate 1600 1)) (Some 16000) 0.75 0.4
        = Inr [(0, 1 / 10)]"
    using general get_sil_endpoints_ones by (simp add: resolve_input_direct long_silences_def)
  ultimately show ?thesis using z get_sil_endpoints_ones by simp
qed

text \<open>
  C5, as stated, fails on a clip shorter than \<open>min_nosil_dur\<close> that has no long
  silence: 1600 samples of magnitude 1 at 16000 Hz are returned as the single interval
  \<open>(0.0, 0.1)\<close>, of duration below \<open>0.4\<close>.
\<close>

theorem short_clip_counterexample:
  "get_speech_endpoint lib1 sig1 None (Some (replicate 1600 1)) (Some 16000) 0.75 0.4
     = Inr [(0, 1 / 10)]
   \<and> (1 / 10 - 0 :: real) < 0.4"
  using get_speech_endpoint_resolved
    [OF resolve_input_direct _ get_sil_endpoints_ones, where r = 16000 and a = "0.75" and b = "0.4"]
  by (simp add: long_silences_def)

text \<open>
  C5, amended. For a positive sample rate: every silence interval that is kept lasts
  longer than \<open>min_sil_dur\<close>; when at least one is kept, a list is returned and every
  speech interval in it lasts longer than \<open>min_nosil_dur\<close>; when none is kept, the
  single interval \<open>(0.0, len(signal) / sr)\<close> is returned without a test of its
  duration.
\<close>

theorem minimum_durations_on_complement_path:
  assumes "resolve_input lib wp sg sr = Inr (Some y, Some r)" "0 < r"
    and "get_sil_endpoints lib sv y ''sil'' = Inr sil0"
  shows "(\<forall>iv\<in>set (long_silences r a sil0). snd iv - fst iv > a)
       \<and> (long_silences r a sil0 \<noteq> [] \<longrightarrow>
            (\<exists>ivs. get_speech_endpoint lib sv wp sg sr a b = Inr ivs
                   \<and> (\<forall>iv\<in>set ivs. snd iv - fst iv > b)))
       \<and> (long_silences r a sil0 = [] \<longrightarrow>
            get_speech_endpoint lib sv wp sg sr a b = Inr [(0, real (length y) / real_of_int r)])"
proof -
  have r0: "r \<noteq> 0" using assms(2) by simp
  note eq = get_speech_endpoint_resolved [OF assms(1) r0 assms(3), of a b]
  have "\<exists>ivs. get_speech_endpoint lib sv wp sg sr a b = Inr ivs
      \<and> (\<forall>iv\<in>set ivs. snd iv - fst iv > b)"
    if ne: "long_silences r a sil0 \<noteq> []"
  proof -
    obtain ns where "sil_to_nosil (long_silences r a sil0) (real (length y) / real_of_int r) = Inr ns"
      using ne by (simp add: sil_to_nosil_parts)
    then have "get_speech_endpoint lib sv wp sg sr a b = Inr (filter (\<lambda>(s, e). e - s > b) ns)"
      using eq ne by simp
    then show ?thesis by (auto simp: case_prod_beta)
  qed
  then show ?thesis
    using eq long_silences_duration [OF assms(2)] by auto
qed

theorem minimum_durations_on_complement_path_witness:
  "resolve_input lib1 None (Some [1, 1, 0, 0, 0, 1]) (Some 2) = Inr (Some [1, 1, 0, 0, 0, 1], Some 2)
   \<and> get_sil_endpoints lib1 sig1 [1, 1, 0, 0, 0, 1] ''sil'' = Inr [(2, 4)]
   \<and> long_silences 2 0.75 [(2, 4)] = [(1, 2)]
   \<and> (2 - 1 :: real) > 0.75
   \<and> get_speech_endpoint lib1 sig1 None (Some [1, 1, 0, 0, 0, 1]) (Some 2) 0.75 0.4
        = Inr [(0, 1), (2, 3)]
   \<and> (1 - 0 :: real) > 0.4 \<and> (3 - 2 :: real) > 0.4"
proof -
  have r: "(0::int) < 2" by simp
  note t = minimum_durations_on_complement_path
      [OF resolve_input_direct r get_sil_endpoints_example, where a = "0.75" and b = "0.4",
        unfolded long_silences_example get_speech_endpoint_example]
  have "\<forall>iv\<in>set [(1, 2 :: real)]. snd iv - fst iv > 0.75" using t by blast
  then have a: "(2 - 1 :: real) > 0.75" by simp
  have "\<forall>iv\<in>set [(0, 1), (2, 3 :: real)]. snd iv - fst iv > 0.4" using t by blast
  then have b: "(1 - 0 :: real) > 0.4 \<and> (3 - 2 :: real) > 0.4" by simp
  show ?thesis
    using a b get_sil_endpoints_example long_silences_example get_speech_endpoint_example
      resolve_input_direct
    by blast
qed

end
